theory Spec2Isabelle
  imports Main "HOL-Library.Multiset"
begin

section \<open>JavaScript strings\<close>

text \<open>
  A JavaScript string is modelled as a \<^typ>\<open>string\<close>, one \<^typ>\<open>char\<close> per code unit, for the
  strings whose code units lie below 256. The program tells code units apart in three
  ways only: the two braces, the line terminators (the dot of a regular expression
  matches none of them) and the white space that \<^verbatim>\<open>trim\<close> removes. Below 256 the line
  terminators are LF and CR, and the white space is TAB, VT, FF, SP, NBSP and the line
  terminators.
\<close>

definition is_line_terminator :: "char \<Rightarrow> bool" where
  "is_line_terminator c \<longleftrightarrow> c = CHR 0x0A \<or> c = CHR 0x0D"

definition is_white_space :: "char \<Rightarrow> bool" where
  "is_white_space c \<longleftrightarrow>
     c = CHR 0x09 \<or> c = CHR 0x0B \<or> c = CHR 0x0C \<or> c = CHR 0x20 \<or> c = CHR 0xA0 \<or>
     is_line_terminator c"

text \<open>\<^verbatim>\<open>String.prototype.trim\<close>: drops white space and line terminators at both ends.\<close>

definition trim :: "string \<Rightarrow> string" where
  "trim s = rev (dropWhile is_white_space (rev (dropWhile is_white_space s)))"

text \<open>\<^verbatim>\<open>s.startsWith('{')\<close> and \<^verbatim>\<open>s.endsWith('}')\<close>.\<close>

fun startsWith_lbrace :: "string \<Rightarrow> bool" where
  "startsWith_lbrace [] = False"
| "startsWith_lbrace (c # cs) = (c = CHR ''{'')"

definition endsWith_rbrace :: "string \<Rightarrow> bool" where
  "endsWith_rbrace s \<longleftrightarrow> s \<noteq> [] \<and> last s = CHR ''}''"

section \<open>The fill-in-blanks tokenizer\<close>

text \<open>
  The regular expression \<^verbatim>\<open>/(\{.*?\})/g\<close>. \<open>match_group cs\<close> is the match of
  \<^verbatim>\<open>.*?\}\<close> at the start of \<open>cs\<close>, the text after an opening brace: the lazy star takes
  the fewest characters, none of them a line terminator, up to the first closing brace.
  It returns the group's content and the text after the closing brace.
\<close>

fun match_group :: "string \<Rightarrow> (string \<times> string) option" where
  "match_group [] = None"
| "match_group (c # cs) =
     (if c = CHR ''}'' then Some ([], cs)
      else if is_line_terminator c then None
      else (case match_group cs of
              None \<Rightarrow> None
            | Some (w, r) \<Rightarrow> Some (c # w, r)))"

lemma match_group_length:
  "match_group cs = Some (w, r) \<Longrightarrow> length r < length cs"
  by (induction cs arbitrary: w) (auto split: if_splits option.splits)

text \<open>
  \<^verbatim>\<open>template.split(/(\{.*?\})/g)\<close>: the pieces between the matches, each match (the
  capture group) inserted between them; the piece before the first match and the piece
  after the last one are present even when empty.
\<close>

fun cons_first :: "char \<Rightarrow> string list \<Rightarrow> string list" where
  "cons_first c [] = [[c]]"
| "cons_first c (p # ps) = (c # p) # ps"

function split_groups :: "string \<Rightarrow> string list" where
  "split_groups [] = [[]]"
| "split_groups (c # cs) =
     (if c = CHR ''{'' then
        (case match_group cs of
           Some (w, r) \<Rightarrow> [] # (CHR ''{'' # w @ ''}'') # split_groups r
         | None \<Rightarrow> cons_first c (split_groups cs))
      else cons_first c (split_groups cs))"
  by pat_completeness auto
termination
  by (relation "measure length") (auto dest: match_group_length)

datatype token = Text string | Blank nat string

record parsed =
  sentenceTemplate :: "token list"
  correctWords :: "string list"

text \<open>
  The body of \<^verbatim>\<open>parts.forEach\<close>: the loop state is the template built so far, the
  counter \<^verbatim>\<open>blankIndex\<close> and the answers collected so far. \<^verbatim>\<open>part.substring(1,
  part.length - 1)\<close> is only reached for a part of length at least 2. The empty
  template takes the early return of \<^verbatim>\<open>if (!template)\<close>.
\<close>

fun parse_part :: "token list \<times> nat \<times> string list \<Rightarrow> string \<Rightarrow> token list \<times> nat \<times> string list" where
  "parse_part (tpl, blankIndex, cws) part =
     (if startsWith_lbrace part \<and> endsWith_rbrace part then
        (let word = trim (butlast (tl part))
         in (tpl @ [Blank blankIndex word], blankIndex + 1, cws @ [word]))
      else (tpl @ [Text part], blankIndex, cws))"

definition parts_of :: "string \<Rightarrow> string list" where
  "parts_of template = filter (\<lambda>p. length p > 0) (split_groups template)"

definition parseFillInBlanks :: "string \<Rightarrow> parsed" where
  "parseFillInBlanks template =
     (if template = [] then \<lparr>sentenceTemplate = [], correctWords = []\<rparr>
      else (case foldl parse_part ([], 0, []) (parts_of template) of
              (tpl, blankIndex, cws) \<Rightarrow> \<lparr>sentenceTemplate = tpl, correctWords = cws\<rparr>))"

text \<open>
  The loop over \<^verbatim>\<open>parts\<close> as a recursive function over the parts, the blank counter
  passed along; \<open>foldl_parse_part\<close> below relates it to the loop.
\<close>

definition is_blank_part :: "string \<Rightarrow> bool" where
  "is_blank_part p \<longleftrightarrow> startsWith_lbrace p \<and> endsWith_rbrace p"

fun tokens_from :: "nat \<Rightarrow> string list \<Rightarrow> token list" where
  "tokens_from i [] = []"
| "tokens_from i (p # ps) =
     (if is_blank_part p then Blank i (trim (butlast (tl p))) # tokens_from (Suc i) ps
      else Text p # tokens_from i ps)"

fun blank_words :: "token list \<Rightarrow> string list" where
  "blank_words [] = []"
| "blank_words (Text s # ts) = blank_words ts"
| "blank_words (Blank i w # ts) = w # blank_words ts"

fun blank_indices :: "token list \<Rightarrow> nat list" where
  "blank_indices [] = []"
| "blank_indices (Text s # ts) = blank_indices ts"
| "blank_indices (Blank i w # ts) = i # blank_indices ts"

fun reconstruct :: "token list \<Rightarrow> string" where
  "reconstruct [] = []"
| "reconstruct (Text s # ts) = s @ reconstruct ts"
| "reconstruct (Blank i w # ts) = CHR ''{'' # w @ CHR ''}'' # reconstruct ts"

subsection \<open>The tokenizer in the words of the specification\<close>

text \<open>
  A group is an opening brace, a content without a closing brace, and a closing brace.
  A string has a pair when an opening brace in it is followed, anywhere later, by a
  closing brace, that is, when it still holds a group.
\<close>

definition has_pair :: "string \<Rightarrow> bool" where
  "has_pair p \<longleftrightarrow> CHR ''}'' \<in> set (dropWhile (\<lambda>c. c \<noteq> CHR ''{'') p)"

definition group_content :: "string \<Rightarrow> string" where
  "group_content p = butlast (tl p)"

definition is_group :: "string \<Rightarrow> bool" where
  "is_group p \<longleftrightarrow> startsWith_lbrace p \<and> endsWith_rbrace p \<and> 2 \<le> length p \<and>
     CHR ''}'' \<notin> set (group_content p)"

definition no_line_terminator :: "string \<Rightarrow> bool" where
  "no_line_terminator s \<longleftrightarrow> (\<forall>c \<in> set s. \<not> is_line_terminator c)"

text \<open>
  No group spans a line break: wherever an opening brace is followed, somewhere later,
  by a closing brace, there is no line terminator between it and the next closing brace.
\<close>

fun groups_within_lines :: "string \<Rightarrow> bool" where
  "groups_within_lines [] = True"
| "groups_within_lines (c # cs) =
     ((c = CHR ''{'' \<and> CHR ''}'' \<in> set cs \<longrightarrow>
         no_line_terminator (takeWhile (\<lambda>x. x \<noteq> CHR ''}'') cs)) \<and>
      groups_within_lines cs)"

text \<open>
  The shape of the result of \<open>split_groups\<close> on a template whose groups lie within lines:
  texts and groups alternate, no text before a group holds an opening brace, and the
  last text holds no pair.
\<close>

fun wf_split :: "string list \<Rightarrow> bool" where
  "wf_split [] = False"
| "wf_split [t0] = (\<not> has_pair t0)"
| "wf_split (t0 # g # rest) =
     (CHR ''{'' \<notin> set t0 \<and> is_group g \<and> no_line_terminator (group_content g) \<and> wf_split rest)"

text \<open>A part as \<open>reconstruct\<close> writes its token back.\<close>

definition norm_part :: "string \<Rightarrow> string" where
  "norm_part p = (if is_blank_part p then CHR ''{'' # trim (butlast (tl p)) @ ''}'' else p)"

text \<open>
  A template written out as texts and balanced groups: a first text \<open>u0\<close> and, for each
  group, its content \<open>w\<close> and the text \<open>u\<close> that follows it. A balanced group has a
  content without braces and without line terminators. The writing is well formed when
  no text before a group holds an opening brace and the last text holds no pair, so
  that the groups listed are all the groups of the template. \<open>expected_tokens\<close> is the
  token sequence of the specification: a text token for each non-empty text, a blank
  token for each group, numbered from the left, with the trimmed content.
  \<open>balanced_groups\<close> says of a string that every opening brace with a closing brace
  after it meets no further opening brace and no line terminator before the next
  closing brace.
\<close>

definition plain_content :: "string \<Rightarrow> bool" where
  "plain_content w \<longleftrightarrow> CHR ''{'' \<notin> set w \<and> CHR ''}'' \<notin> set w \<and> no_line_terminator w"

definition group_text :: "string \<Rightarrow> string" where
  "group_text w = CHR ''{'' # w @ ''}''"

fun template_of :: "string \<Rightarrow> (string \<times> string) list \<Rightarrow> string" where
  "template_of u0 [] = u0"
| "template_of u0 ((w, u) # gs) = u0 @ group_text w @ template_of u gs"

fun well_formed :: "string \<Rightarrow> (string \<times> string) list \<Rightarrow> bool" where
  "well_formed u0 [] = (\<not> has_pair u0)"
| "well_formed u0 ((w, u) # gs) = (CHR ''{'' \<notin> set u0 \<and> plain_content w \<and> well_formed u gs)"

definition text_token :: "string \<Rightarrow> token list" where
  "text_token u = (if u = [] then [] else [Text u])"

fun expected_tokens :: "nat \<Rightarrow> string \<Rightarrow> (string \<times> string) list \<Rightarrow> token list" where
  "expected_tokens i u0 [] = text_token u0"
| "expected_tokens i u0 ((w, u) # gs) =
     text_token u0 @ Blank i (trim w) # expected_tokens (Suc i) u gs"

fun balanced_groups :: "string \<Rightarrow> bool" where
  "balanced_groups [] = True"
| "balanced_groups (c # cs) =
     ((c = CHR ''{'' \<and> CHR ''}'' \<in> set cs \<longrightarrow>
         plain_content (takeWhile (\<lambda>x. x \<noteq> CHR ''}'') cs)) \<and>
      balanced_groups cs)"

text \<open>The parts of a template written out as texts and groups.\<close>

fun parts_list :: "string \<Rightarrow> (string \<times> string) list \<Rightarrow> string list" where
  "parts_list u0 [] = [u0]"
| "parts_list u0 ((w, u) # gs) = u0 # group_text w # parts_list u gs"

subsection \<open>Properties of the split\<close>

lemma foldl_parse_part:
  "foldl parse_part (tpl, i, cws) ps =
     (tpl @ tokens_from i ps, i + length (blank_words (tokens_from i ps)),
      cws @ blank_words (tokens_from i ps))"
  by (induction ps arbitrary: tpl i cws) (auto simp: is_blank_part_def Let_def)

lemma parts_of_alt: "parts_of t = filter (\<lambda>p. p \<noteq> []) (split_groups t)"
  by (simp add: parts_of_def)

lemma blank_words_tokens_from:
  "blank_words (tokens_from i ps) = map (\<lambda>p. trim (butlast (tl p))) (filter is_blank_part ps)"
  by (induction ps arbitrary: i) auto

lemma blank_indices_tokens_from:
  "blank_indices (tokens_from i ps) = [i ..< i + length (filter is_blank_part ps)]"
  by (induction ps arbitrary: i) (simp_all add: upt_conv_Cons del: upt_Suc)

lemma match_group_Some:
  "match_group cs = Some (w, r) \<Longrightarrow>
     cs = w @ CHR ''}'' # r \<and> CHR ''}'' \<notin> set w \<and> no_line_terminator w"
  by (induction cs arbitrary: w) (auto simp: no_line_terminator_def split: if_splits option.splits)

lemma match_group_None:
  "match_group cs = None \<Longrightarrow> no_line_terminator (takeWhile (\<lambda>x. x \<noteq> CHR ''}'') cs) \<Longrightarrow>
     CHR ''}'' \<notin> set cs"
  by (induction cs) (auto simp: no_line_terminator_def split: if_splits option.splits)

lemma groups_within_lines_append: "groups_within_lines (xs @ ys) \<Longrightarrow> groups_within_lines ys"
  by (induction xs) auto

lemma no_line_terminator_groups: "no_line_terminator t \<Longrightarrow> groups_within_lines t"
  by (induction t) (auto simp: no_line_terminator_def dest: set_takeWhileD)

lemma match_group_no_rbrace: "CHR ''}'' \<notin> set cs \<Longrightarrow> match_group cs = None"
  by (induction cs) auto

lemma match_group_intro:
  "CHR ''}'' \<notin> set w \<Longrightarrow> no_line_terminator w \<Longrightarrow> match_group (w @ CHR ''}'' # r) = Some (w, r)"
  by (induction w) (auto simp: no_line_terminator_def)

lemma split_groups_no_rbrace: "CHR ''}'' \<notin> set t \<Longrightarrow> split_groups t = [t]"
  by (induction t) (auto simp: match_group_no_rbrace)

lemma concat_cons_first: "concat (cons_first c ps) = c # concat ps"
  by (cases ps) auto

lemma concat_split_groups: "concat (split_groups t) = t"
  by (induction t rule: split_groups.induct)
     (auto simp: concat_cons_first dest: match_group_Some split: option.splits)

lemma has_pair_Cons: "has_pair (c # p) \<longleftrightarrow> (if c = CHR ''{'' then CHR ''}'' \<in> set p else has_pair p)"
  by (auto simp: has_pair_def)

lemma wf_cons_first: "wf_split ps \<Longrightarrow> c \<noteq> CHR ''{'' \<Longrightarrow> wf_split (cons_first c ps)"
  by (induction ps rule: wf_split.induct) (auto simp: has_pair_Cons)

lemma is_group_intro:
  "CHR ''}'' \<notin> set w \<Longrightarrow> is_group (CHR ''{'' # w @ ''}'') \<and> group_content (CHR ''{'' # w @ ''}'') = w"
  by (simp add: is_group_def group_content_def endsWith_rbrace_def butlast_append)

lemma wf_split_groups: "groups_within_lines t \<Longrightarrow> wf_split (split_groups t)"
proof (induction t rule: split_groups.induct)
  case 1
  show ?case by (simp add: has_pair_def)
next
  case (2 c cs)
  have nl: "groups_within_lines cs"
    using "2.prems" by simp
  show ?case
  proof (cases "c = CHR ''{''")
    case False
    with 2 nl show ?thesis by (simp add: wf_cons_first)
  next
    case True
    show ?thesis
    proof (cases "match_group cs")
      case None
      have "CHR ''}'' \<notin> set cs"
      proof
        assume "CHR ''}'' \<in> set cs"
        with "2.prems" True
        have "no_line_terminator (takeWhile (\<lambda>x. x \<noteq> CHR ''}'') cs)" by simp
        with None have "CHR ''}'' \<notin> set cs" by (rule match_group_None)
        with \<open>CHR ''}'' \<in> set cs\<close> show False by simp
      qed
      with True None show ?thesis
        by (simp add: split_groups_no_rbrace has_pair_Cons)
    next
      case (Some wr)
      obtain w r where wr: "wr = (w, r)" by (cases wr)
      from Some wr have m: "match_group cs = Some (w, r)" by simp
      from match_group_Some [OF m]
      have cs: "cs = w @ CHR ''}'' # r" and w: "CHR ''}'' \<notin> set w" "no_line_terminator w"
        by simp_all
      from nl cs have "groups_within_lines (CHR ''}'' # r)"
        using groups_within_lines_append [of w "CHR ''}'' # r"] by simp
      then have "groups_within_lines r" by simp
      with "2.IH" True m have "wf_split (split_groups r)" by auto
      with True m w show ?thesis
        by (simp add: is_group_intro)
    qed
  qed
qed

lemma split_groups_text_prefix:
  "CHR ''{'' \<notin> set u \<Longrightarrow> split_groups x = p # ps \<Longrightarrow> split_groups (u @ x) = (u @ p) # ps"
  by (induction u) auto

lemma not_has_pair_split: "\<not> has_pair t \<Longrightarrow> split_groups t = [t]"
  by (induction t) (auto simp: has_pair_Cons match_group_no_rbrace split_groups_no_rbrace)

lemma is_group_decomp: "is_group g \<Longrightarrow> g = CHR ''{'' # group_content g @ ''}''"
proof -
  assume g: "is_group g"
  then obtain cs where cs: "g = CHR ''{'' # cs" "cs \<noteq> []" "last cs = CHR ''}''"
    by (cases g) (auto simp: is_group_def endsWith_rbrace_def split: if_splits)
  then have "cs = butlast cs @ ''}''"
    using append_butlast_last_id [of cs] by simp
  with cs show ?thesis by (simp add: group_content_def)
qed

lemma split_concat_wf: "wf_split ps \<Longrightarrow> split_groups (concat ps) = ps"
proof (induction ps rule: wf_split.induct)
  case 1
  then show ?case by simp
next
  case (2 t0)
  then show ?case by (simp add: not_has_pair_split)
next
  case (3 t0 g rest)
  let ?w = "group_content g"
  from 3 have g: "g = CHR ''{'' # ?w @ ''}''" and w: "CHR ''}'' \<notin> set ?w" "no_line_terminator ?w"
    by (simp_all add: is_group_decomp [symmetric]) (simp add: is_group_def)
  from 3 have ih: "split_groups (concat rest) = rest" by simp
  have "split_groups (g @ concat rest) = split_groups (CHR ''{'' # ?w @ CHR ''}'' # concat rest)"
    by (subst g) simp
  also have "\<dots> = [] # (CHR ''{'' # ?w @ ''}'') # split_groups (concat rest)"
    using w by (simp add: match_group_intro)
  also have "\<dots> = [] # g # rest"
    using g ih by simp
  finally have "split_groups (g @ concat rest) = [] # g # rest" .
  with 3 show ?case
    by (simp add: split_groups_text_prefix)
qed

lemma reconstruct_tokens_from:
  "reconstruct (tokens_from i (filter (\<lambda>p. p \<noteq> []) ps)) = concat (map norm_part ps)"
  by (induction ps arbitrary: i) (auto simp: norm_part_def is_blank_part_def)

lemma dropWhile_id: "xs = [] \<or> \<not> P (hd xs) \<Longrightarrow> dropWhile P xs = xs"
  by (cases xs) auto

lemma trim_idem: "trim (trim s) = trim s"
proof -
  let ?a = "dropWhile is_white_space s"
  let ?b = "dropWhile is_white_space (rev ?a)"
  have b: "dropWhile is_white_space ?b = ?b" by simp
  have "dropWhile is_white_space (rev ?b) = rev ?b"
  proof (cases "?b = []")
    case True
    have "dropWhile is_white_space (rev []) = rev ([] :: string)" by simp
    then show ?thesis by (simp only: True)
  next
    case False
    then have ne: "?a \<noteq> []" by (metis rev.simps(1) dropWhile.simps(1))
    have "rev ?a = takeWhile is_white_space (rev ?a) @ ?b" by simp
    then have "last (rev ?a) = last ?b"
      using False by (metis last_appendR)
    then have "last ?b = hd ?a" using ne by (simp add: last_rev)
    moreover have "\<not> is_white_space (hd ?a)" using ne by (rule hd_dropWhile)
    ultimately have "\<not> is_white_space (hd (rev ?b))"
      using False by (simp add: hd_rev)
    then show ?thesis by (intro dropWhile_id) simp
  qed
  then show ?thesis
    using b by (simp add: trim_def)
qed

lemma set_trim: "set (trim s) \<subseteq> set s"
  unfolding trim_def by (auto dest!: set_dropWhileD)

lemma blank_has_pair: "is_blank_part p \<Longrightarrow> has_pair p"
  by (cases p) (auto simp: is_blank_part_def endsWith_rbrace_def has_pair_Cons
      split: if_splits dest: last_in_set)

lemma no_lbrace_no_pair: "CHR ''{'' \<notin> set p \<Longrightarrow> \<not> has_pair p"
  by (induction p) (simp add: has_pair_def, auto simp: has_pair_Cons)

lemma is_group_blank: "is_group p \<Longrightarrow> is_blank_part p"
  by (simp add: is_group_def is_blank_part_def)

lemma norm_part_blank:
  "is_blank_part p \<Longrightarrow> is_blank_part (norm_part p) \<and> norm_part p \<noteq> [] \<and>
     butlast (tl (norm_part p)) = trim (butlast (tl p))"
  by (simp add: norm_part_def is_blank_part_def endsWith_rbrace_def butlast_append)

lemma norm_part_text: "\<not> is_blank_part p \<Longrightarrow> norm_part p = p"
  by (simp add: norm_part_def)

lemma tokens_from_norm:
  "tokens_from i (filter (\<lambda>p. p \<noteq> []) (map norm_part ps)) =
   tokens_from i (filter (\<lambda>p. p \<noteq> []) ps)"
proof (induction ps arbitrary: i)
  case Nil
  show ?case by simp
next
  case (Cons p ps)
  show ?case
  proof (cases "is_blank_part p")
    case True
    then have "p \<noteq> []" by (auto simp: is_blank_part_def)
    with True norm_part_blank [OF True] Cons show ?thesis
      by (simp add: trim_idem)
  next
    case False
    with Cons show ?thesis by (simp add: norm_part_text)
  qed
qed

lemma wf_norm: "wf_split ps \<Longrightarrow> wf_split (map norm_part ps)"
proof (induction ps rule: wf_split.induct)
  case 1
  then show ?case by simp
next
  case (2 t0)
  then have "\<not> has_pair t0" by simp
  then have "\<not> is_blank_part t0" using blank_has_pair by blast
  with 2 show ?case by (simp add: norm_part_text)
next
  case (3 t0 g rest)
  let ?w = "group_content g"
  from 3 have "CHR ''{'' \<notin> set t0" by simp
  then have t0: "\<not> is_blank_part t0"
    using blank_has_pair no_lbrace_no_pair by blast
  from 3 have g: "is_blank_part g" by (simp add: is_group_blank)
  from 3 have w: "CHR ''}'' \<notin> set ?w" "no_line_terminator ?w"
    by (simp_all add: is_group_def)
  have n: "norm_part g = CHR ''{'' # trim ?w @ ''}''"
    using g by (simp add: norm_part_def group_content_def)
  have tw: "CHR ''}'' \<notin> set (trim ?w)" "no_line_terminator (trim ?w)"
    using w set_trim [of ?w] by (auto simp: no_line_terminator_def)
  have "is_group (norm_part g) \<and> group_content (norm_part g) = trim ?w"
    unfolding n using tw(1) by (rule is_group_intro)
  with 3 t0 tw show ?case
    by (simp add: norm_part_text)
qed

lemma has_pair_iff:
  "has_pair p \<longleftrightarrow> (\<exists>u w v. p = u @ CHR ''{'' # w @ CHR ''}'' # v)"
proof
  assume "has_pair p"
  then show "\<exists>u w v. p = u @ CHR ''{'' # w @ CHR ''}'' # v"
  proof (induction p)
    case Nil
    then show ?case by (simp add: has_pair_def)
  next
    case (Cons c p)
    show ?case
    proof (cases "c = CHR ''{''")
      case True
      with Cons.prems have "CHR ''}'' \<in> set p" by (simp add: has_pair_Cons)
      then obtain w v where "p = w @ CHR ''}'' # v" by (auto dest: split_list)
      with True have "c # p = [] @ CHR ''{'' # w @ CHR ''}'' # v" by simp
      then show ?thesis by blast
    next
      case False
      with Cons.prems have "has_pair p" by (simp add: has_pair_Cons)
      with Cons.IH obtain u w v where "p = u @ CHR ''{'' # w @ CHR ''}'' # v" by blast
      then have "c # p = (c # u) @ CHR ''{'' # w @ CHR ''}'' # v" by simp
      then show ?thesis by blast
    qed
  qed
next
  assume "\<exists>u w v. p = u @ CHR ''{'' # w @ CHR ''}'' # v"
  then obtain u w v where "p = u @ CHR ''{'' # w @ CHR ''}'' # v" by blast
  then show "has_pair p"
    by (induction u arbitrary: p) (auto simp: has_pair_Cons)
qed

lemma is_group_iff:
  "is_group p \<longleftrightarrow> (\<exists>w. p = CHR ''{'' # w @ ''}'' \<and> CHR ''}'' \<notin> set w)"
proof
  assume "is_group p"
  then have "p = CHR ''{'' # group_content p @ ''}'' \<and> CHR ''}'' \<notin> set (group_content p)"
    by (simp add: is_group_decomp [symmetric]) (simp add: is_group_def)
  then show "\<exists>w. p = CHR ''{'' # w @ ''}'' \<and> CHR ''}'' \<notin> set w" by blast
next
  assume "\<exists>w. p = CHR ''{'' # w @ ''}'' \<and> CHR ''}'' \<notin> set w"
  then obtain w where "p = CHR ''{'' # w @ ''}''" "CHR ''}'' \<notin> set w" by blast
  then show "is_group p" using is_group_intro [of w] by simp
qed

lemma concat_filter_nonempty: "concat (filter (\<lambda>p. p \<noteq> []) ps) = concat ps"
  by (induction ps) auto

lemma parse_eq:
  "parseFillInBlanks t =
     \<lparr>sentenceTemplate = tokens_from 0 (parts_of t),
      correctWords = blank_words (tokens_from 0 (parts_of t))\<rparr>"
  by (simp add: parseFillInBlanks_def foldl_parse_part parts_of_def)

lemma parse_example:
  "parseFillInBlanks ''Smeety Alex, o {nty}?'' =
     \<lparr>sentenceTemplate = [Text ''Smeety Alex, o '', Blank 0 ''nty'', Text ''?''],
      correctWords = [''nty'']\<rparr>"
  by (simp add: parseFillInBlanks_def parts_of_def trim_def is_white_space_def
      is_line_terminator_def endsWith_rbrace_def Let_def)

lemma match_group_append:
  "match_group cs = Some (w, r) \<Longrightarrow> match_group (cs @ x) = Some (w, r @ x)"
  by (induction cs arbitrary: w) (auto split: if_splits option.splits)

lemma match_group_append_None:
  "match_group cs = None \<Longrightarrow> CHR ''}'' \<notin> set x \<Longrightarrow> match_group (cs @ x) = None"
  by (induction cs) (auto simp: match_group_no_rbrace split: if_splits option.splits)

lemma cons_first_snoc: "\<exists>ps' s'. cons_first c (ps @ [s @ x]) = ps' @ [s' @ x]"
proof (cases ps)
  case Nil
  have "cons_first c ([] @ [s @ x]) = [] @ [(c # s) @ x]" by simp
  with Nil show ?thesis by blast
next
  case (Cons p ps'')
  have "cons_first c ((p # ps'') @ [s @ x]) = ((c # p) # ps'') @ [s @ x]" by simp
  with Cons show ?thesis by blast
qed

lemma split_unterminated:
  "CHR ''}'' \<notin> set v \<Longrightarrow> \<exists>ps s. split_groups (u @ CHR ''{'' # v) = ps @ [s @ CHR ''{'' # v]"
proof (induction u rule: split_groups.induct)
  case 1
  then have "split_groups ([] @ CHR ''{'' # v) = [] @ [[] @ CHR ''{'' # v]"
    by (simp add: match_group_no_rbrace split_groups_no_rbrace)
  then show ?case by blast
next
  case (2 c cs)
  let ?x = "CHR ''{'' # v"
  from "2.prems" have x: "CHR ''}'' \<notin> set ?x" by simp
  show ?case
  proof (cases "c = CHR ''{'' \<and> match_group cs \<noteq> None")
    case True
    then obtain w r where m: "match_group cs = Some (w, r)" by auto
    from True m "2.IH" "2.prems" obtain ps s where
      ih: "split_groups (r @ ?x) = ps @ [s @ ?x]" by blast
    have "split_groups ((c # cs) @ ?x) = ([] # (CHR ''{'' # w @ ''}'') # ps) @ [s @ ?x]"
      using True ih match_group_append [OF m, of ?x] by simp
    then show ?thesis by blast
  next
    case False
    from False "2.IH" "2.prems" obtain ps s where
      ih: "split_groups (cs @ ?x) = ps @ [s @ ?x]" by blast
    have "split_groups ((c # cs) @ ?x) = cons_first c (split_groups (cs @ ?x))"
    proof (cases "c = CHR ''{''")
      case True
      with False have "match_group cs = None" by (cases "match_group cs") auto
      then have "match_group (cs @ ?x) = None" using x by (rule match_group_append_None)
      with True show ?thesis by simp
    next
      case False
      then show ?thesis by simp
    qed
    with ih cons_first_snoc [of c ps s ?x] show ?thesis by auto
  qed
qed

lemma tokens_from_snoc_text:
  "\<not> is_blank_part p \<Longrightarrow> tokens_from i (ps @ [p]) = tokens_from i ps @ [Text p]"
  by (induction ps arbitrary: i) auto

lemma blank_words_snoc_text: "blank_words (ts @ [Text p]) = blank_words ts"
  by (induction ts rule: blank_words.induct) auto

lemma concat_parts_list: "concat (parts_list u0 gs) = template_of u0 gs"
  by (induction u0 gs rule: parts_list.induct) auto

lemma wf_parts_list: "well_formed u0 gs \<Longrightarrow> wf_split (parts_list u0 gs)"
  by (induction u0 gs rule: parts_list.induct)
     (auto simp: plain_content_def group_text_def is_group_intro)

lemma group_text_blank:
  "is_blank_part (group_text w) \<and> group_text w \<noteq> [] \<and> butlast (tl (group_text w)) = w"
  by (simp add: group_text_def is_blank_part_def endsWith_rbrace_def butlast_append)

lemma tokens_from_text_token:
  "\<not> is_blank_part u \<Longrightarrow>
     tokens_from i (filter (\<lambda>p. p \<noteq> []) (u # ps)) =
     text_token u @ tokens_from i (filter (\<lambda>p. p \<noteq> []) ps)"
  by (simp add: text_token_def)

lemma tokens_from_parts_list:
  "well_formed u0 gs \<Longrightarrow>
     tokens_from i (filter (\<lambda>p. p \<noteq> []) (parts_list u0 gs)) = expected_tokens i u0 gs"
proof (induction u0 gs arbitrary: i rule: parts_list.induct)
  case (1 u0)
  then have "\<not> is_blank_part u0" using blank_has_pair by auto
  then show ?case by (simp add: text_token_def)
next
  case (2 u0 w u gs)
  then have "CHR ''{'' \<notin> set u0" by simp
  then have nb: "\<not> is_blank_part u0"
    using blank_has_pair no_lbrace_no_pair by blast
  from 2 have ih: "tokens_from (Suc i) (filter (\<lambda>p. p \<noteq> []) (parts_list u gs)) =
      expected_tokens (Suc i) u gs" by simp
  have g: "tokens_from i (filter (\<lambda>p. p \<noteq> []) (group_text w # parts_list u gs)) =
      Blank i (trim w) # tokens_from (Suc i) (filter (\<lambda>p. p \<noteq> []) (parts_list u gs))"
    using group_text_blank [of w] by simp
  have t: "tokens_from i (filter (\<lambda>p. p \<noteq> []) (u0 # group_text w # parts_list u gs)) =
      text_token u0 @ tokens_from i (filter (\<lambda>p. p \<noteq> []) (group_text w # parts_list u gs))"
    using nb by (rule tokens_from_text_token)
  show ?case
    by (simp only: parts_list.simps expected_tokens.simps t g ih)
qed

lemma blank_words_append: "blank_words (xs @ ys) = blank_words xs @ blank_words ys"
  by (induction xs rule: blank_words.induct) auto

lemma blank_words_expected:
  "blank_words (expected_tokens i u0 gs) = map (\<lambda>(w, u). trim w) gs"
  by (induction i u0 gs rule: expected_tokens.induct)
     (auto simp: blank_words_append text_token_def)

lemma parse_template_of:
  assumes "well_formed u0 gs"
  shows "parseFillInBlanks (template_of u0 gs) =
           \<lparr>sentenceTemplate = expected_tokens 0 u0 gs,
            correctWords = map (\<lambda>(w, u). trim w) gs\<rparr>"
proof -
  have "split_groups (concat (parts_list u0 gs)) = parts_list u0 gs"
    using assms by (intro split_concat_wf wf_parts_list)
  then have "parts_of (template_of u0 gs) = filter (\<lambda>p. p \<noteq> []) (parts_list u0 gs)"
    by (simp add: parts_of_alt concat_parts_list)
  then show ?thesis
    using assms by (simp add: parse_eq tokens_from_parts_list blank_words_expected)
qed

lemma balanced_groups_append: "balanced_groups (xs @ ys) \<Longrightarrow> balanced_groups ys"
  by (induction xs) auto

lemma well_formed_Cons:
  "well_formed u0 gs \<Longrightarrow> c \<noteq> CHR ''{'' \<Longrightarrow> well_formed (c # u0) gs"
  by (cases gs) (auto simp: has_pair_Cons)

lemma template_of_Cons: "template_of (c # u0) gs = c # template_of u0 gs"
  by (cases gs) auto

lemma balanced_decomposition:
  "balanced_groups t \<Longrightarrow> \<exists>u0 gs. well_formed u0 gs \<and> t = template_of u0 gs"
proof (induction t rule: length_induct)
  case (1 t)
  show ?case
  proof (cases t)
    case Nil
    have "well_formed [] [] \<and> [] = template_of [] []" by (simp add: has_pair_def)
    with Nil show ?thesis by blast
  next
    case (Cons c cs)
    with "1.prems" have bcs: "balanced_groups cs" by simp
    show ?thesis
    proof (cases "c = CHR ''{''")
      case False
      from "1.IH" Cons bcs obtain u0 gs where "well_formed u0 gs" "cs = template_of u0 gs"
        by auto
      with False Cons have "well_formed (c # u0) gs \<and> t = template_of (c # u0) gs"
        by (simp add: well_formed_Cons template_of_Cons)
      then show ?thesis by blast
    next
      case True
      show ?thesis
      proof (cases "CHR ''}'' \<in> set cs")
        case False
        with True Cons have "well_formed t [] \<and> t = template_of t []"
          by (simp add: has_pair_Cons)
        then show ?thesis by blast
      next
        case in_cs: True
        let ?w = "takeWhile (\<lambda>x. x \<noteq> CHR ''}'') cs"
        let ?d = "dropWhile (\<lambda>x. x \<noteq> CHR ''}'') cs"
        from in_cs have "?d \<noteq> []" by auto
        moreover have "?d \<noteq> [] \<Longrightarrow> hd ?d = CHR ''}''"
          using hd_dropWhile [of "\<lambda>x. x \<noteq> CHR ''}''" cs] by simp
        ultimately obtain r where d: "?d = CHR ''}'' # r" by (cases ?d) auto
        have cs: "cs = ?w @ CHR ''}'' # r"
          using takeWhile_dropWhile_id [of "\<lambda>x. x \<noteq> CHR ''}''" cs] d by simp
        from "1.prems" Cons True in_cs have pw: "plain_content ?w" by simp
        from bcs cs have "balanced_groups (CHR ''}'' # r)"
          using balanced_groups_append [of ?w "CHR ''}'' # r"] by simp
        then have br: "balanced_groups r" by simp
        have "length r < length t" using Cons cs
          by (metis add_Suc_right length_Cons length_append less_Suc_eq less_add_Suc2 trans_less_add2)
        with "1.IH" br obtain u gs where ug: "well_formed u gs" "r = template_of u gs"
          by blast
        have "t = template_of [] ((?w, u) # gs)"
          using Cons True cs ug(2) by (simp add: group_text_def)
        moreover have "well_formed [] ((?w, u) # gs)"
          using pw ug(1) by simp
        ultimately show ?thesis by blast
      qed
    qed
  qed
qed

subsection \<open>Claims about the tokenizer\<close>

text \<open>
  Claim C5, as stated for every template string, fails in two ways. The dot of the
  regular expression matches no line terminator, so the balanced group \<^verbatim>\<open>{a<LF>}\<close> in
  the template \<^verbatim>\<open>{a<LF>}b\<close> is not split off and the whole template becomes one text
  token. And a match runs from an opening brace to the next closing brace, whatever lies
  between: in \<^verbatim>\<open>x {{nty}} y\<close> the blank carries \<^verbatim>\<open>{nty\<close>, not the content of the balanced
  group \<^verbatim>\<open>{nty}\<close>.
\<close>

theorem tokenizer_group_counterexample:
  "parseFillInBlanks (group_text (''a'' @ [CHR 0x0A]) @ ''b'') =
     \<lparr>sentenceTemplate = [Text (''{a'' @ [CHR 0x0A] @ ''}b'')], correctWords = []\<rparr> \<and>
   parseFillInBlanks (''x {'' @ group_text ''nty'' @ ''} y'') =
     \<lparr>sentenceTemplate = [Text ''x '', Blank 0 ''{nty'', Text ''} y''], correctWords = [''{nty'']\<rparr>"
  by (simp add: parseFillInBlanks_def parts_of_def group_text_def trim_def
      is_white_space_def is_line_terminator_def endsWith_rbrace_def Let_def)

text \<open>
  Claim C5, amended: for every template string in which every opening brace that has
  a closing brace after it meets no further opening brace and no line terminator
  before the next closing brace, the tokenizer produces an ordered token sequence in
  which each balanced group becomes a blank token carrying a zero-based index assigned
  in left-to-right order and the group's trimmed content as its correct word, every
  other non-empty fragment becomes a text token, and \<open>correctWords\<close> lists the blanks'
  words in the same order; and the example template yields the template and answer list
  of the specification. In the theorem: however a template is written out, well formed,
  as texts and balanced groups, the tokenizer returns exactly the expected tokens and
  the trimmed contents; every template of the kind above can be written out so; and
  for every template at all the answers are the blanks' words in order and the
  blanks' indices count up from zero.
\<close>

theorem tokenizer_balanced_groups:
  "(well_formed u0 gs \<longrightarrow>
      parseFillInBlanks (template_of u0 gs) =
        \<lparr>sentenceTemplate = expected_tokens 0 u0 gs,
         correctWords = map (\<lambda>(w, u). trim w) gs\<rparr>) \<and>
   (balanced_groups t \<longrightarrow> (\<exists>u0 gs. well_formed u0 gs \<and> t = template_of u0 gs)) \<and>
   correctWords (parseFillInBlanks t) = blank_words (sentenceTemplate (parseFillInBlanks t)) \<and>
   blank_indices (sentenceTemplate (parseFillInBlanks t)) =
     [0 ..< length (correctWords (parseFillInBlanks t))] \<and>
   parseFillInBlanks ''Smeety Alex, o {nty}?'' =
     \<lparr>sentenceTemplate = [Text ''Smeety Alex, o '', Blank 0 ''nty'', Text ''?''],
      correctWords = [''nty'']\<rparr>"
proof (intro conjI impI)
  assume "well_formed u0 gs"
  then show "parseFillInBlanks (template_of u0 gs) =
      \<lparr>sentenceTemplate = expected_tokens 0 u0 gs, correctWords = map (\<lambda>(w, u). trim w) gs\<rparr>"
    by (rule parse_template_of)
next
  assume "balanced_groups t"
  then show "\<exists>u0 gs. well_formed u0 gs \<and> t = template_of u0 gs"
    by (rule balanced_decomposition)
next
  show "correctWords (parseFillInBlanks t) = blank_words (sentenceTemplate (parseFillInBlanks t))"
    by (simp add: parse_eq)
next
  show "blank_indices (sentenceTemplate (parseFillInBlanks t)) =
      [0 ..< length (correctWords (parseFillInBlanks t))]"
    by (simp add: parse_eq blank_indices_tokens_from blank_words_tokens_from)
next
  show "parseFillInBlanks ''Smeety Alex, o {nty}?'' =
     \<lparr>sentenceTemplate = [Text ''Smeety Alex, o '', Blank 0 ''nty'', Text ''?''],
      correctWords = [''nty'']\<rparr>"
    by (rule parse_example)
qed

theorem tokenizer_balanced_groups_witness:
  "well_formed ''Salam '' [('' nta '', '' o ''), (''nty'', ''?'')] \<and>
   balanced_groups ''Salam { nta } o {nty}?'' \<and>
   parseFillInBlanks ''Salam { nta } o {nty}?'' =
     \<lparr>sentenceTemplate = [Text ''Salam '', Blank 0 ''nta'', Text '' o '', Blank 1 ''nty'', Text ''?''],
      correctWords = [''nta'', ''nty'']\<rparr>"
proof -
  have w: "well_formed ''Salam '' [('' nta '', '' o ''), (''nty'', ''?'')]"
    by (simp add: plain_content_def no_line_terminator_def is_line_terminator_def has_pair_def)
  have b: "balanced_groups ''Salam { nta } o {nty}?''"
    by (simp add: plain_content_def no_line_terminator_def is_line_terminator_def)
  show ?thesis
    using w b tokenizer_balanced_groups [of "''Salam ''" "[('' nta '', '' o ''), (''nty'', ''?'')]"
        "''Salam { nta } o {nty}?''"]
    by (simp add: group_text_def text_token_def trim_def is_white_space_def is_line_terminator_def)
qed

text \<open>
  Claim C6, as stated for every template string, fails on a template with a line
  break: \<^verbatim>\<open>{<LF>}}\<close> is not matched by the regular expression, the whole part is
  classified as a blank by its enclosing braces with the answer \<^verbatim>\<open>}\<close>, and the
  reconstruction \<^verbatim>\<open>{}}\<close> tokenizes to an empty blank followed by a text token.
\<close>

theorem retokenize_multiline_counterexample:
  "sentenceTemplate (parseFillInBlanks (''{'' @ [CHR 0x0A] @ ''}}'')) = [Blank 0 ''}''] \<and>
   reconstruct [Blank 0 ''}''] = ''{}}'' \<and>
   sentenceTemplate (parseFillInBlanks ''{}}'') = [Blank 0 [], Text ''}'']"
  by (simp add: parseFillInBlanks_def parts_of_def trim_def is_white_space_def
      is_line_terminator_def endsWith_rbrace_def Let_def)

text \<open>
  Claim C6, amended: for every template string in which no group spans a line break
  (in particular for every template without a line terminator), re-tokenizing the literal reconstruction of the template gives the same template
  and the same answer list.
\<close>

theorem retokenize_groups_within_lines:
  assumes "groups_within_lines t"
  shows "parseFillInBlanks (reconstruct (sentenceTemplate (parseFillInBlanks t))) =
         parseFillInBlanks t"
proof -
  let ?ps = "split_groups t"
  have wf: "wf_split (map norm_part ?ps)"
    using assms by (intro wf_norm wf_split_groups)
  have r: "reconstruct (sentenceTemplate (parseFillInBlanks t)) = concat (map norm_part ?ps)"
    by (simp add: parse_eq parts_of_alt reconstruct_tokens_from)
  have "parts_of (concat (map norm_part ?ps)) = filter (\<lambda>p. p \<noteq> []) (map norm_part ?ps)"
    unfolding parts_of_alt by (subst split_concat_wf [OF wf]) (rule refl)
  then have "tokens_from 0 (parts_of (concat (map norm_part ?ps))) = tokens_from 0 (parts_of t)"
    by (simp only: tokens_from_norm parts_of_alt)
  then have "parseFillInBlanks (concat (map norm_part ?ps)) = parseFillInBlanks t"
    by (simp only: parse_eq)
  then show ?thesis
    by (simp only: r)
qed

theorem retokenize_groups_within_lines_witness:
  "groups_within_lines (''Salam!'' @ [CHR 0x0A] @ ''o { nty }?'') \<and>
   parseFillInBlanks (reconstruct (sentenceTemplate
     (parseFillInBlanks (''Salam!'' @ [CHR 0x0A] @ ''o { nty }?'')))) =
   parseFillInBlanks (''Salam!'' @ [CHR 0x0A] @ ''o { nty }?'')"
proof -
  have h: "groups_within_lines (''Salam!'' @ [CHR 0x0A] @ ''o { nty }?'')"
    by (simp add: no_line_terminator_def is_line_terminator_def)
  show ?thesis
    using h retokenize_groups_within_lines [OF h] by simp
qed

text \<open>
  Claim C7, as stated, fails where a closing brace follows the unmatched opening
  brace: in \<^verbatim>\<open>{a {b}\<close> the first opening brace has no partner, yet the match runs from it
  to the only closing brace and the whole template becomes a blank.
\<close>

theorem unterminated_brace_paired_counterexample:
  "parseFillInBlanks ''{a {b}'' =
     \<lparr>sentenceTemplate = [Blank 0 ''a {b''], correctWords = [''a {b'']\<rparr>"
  by (simp add: parseFillInBlanks_def parts_of_def trim_def
      is_white_space_def is_line_terminator_def endsWith_rbrace_def Let_def)

text \<open>
  Claim C7, amended: \<open>parseFillInBlanks\<close> returns on every input string (it is a total
  function: its only recursion, \<open>split_groups\<close>, terminates on every string, and no
  operation in it can throw), the parts it works on make up the whole input in order,
  and an opening brace with no closing brace anywhere after it ends up, with everything
  that follows it, inside the final text token; it adds no blank and no answer.
\<close>

theorem unterminated_brace_is_text:
  "concat (parts_of t) = t \<and>
   (CHR ''}'' \<notin> set v \<longrightarrow>
      (\<exists>ts s. sentenceTemplate (parseFillInBlanks (u @ CHR ''{'' # v)) =
                  ts @ [Text (s @ CHR ''{'' # v)] \<and>
                correctWords (parseFillInBlanks (u @ CHR ''{'' # v)) = blank_words ts))"
proof (intro conjI impI)
  show "concat (parts_of t) = t"
    by (simp add: parts_of_alt concat_filter_nonempty concat_split_groups)
next
  assume v: "CHR ''}'' \<notin> set v"
  from split_unterminated [OF v, of u] obtain ps s where
    sp: "split_groups (u @ CHR ''{'' # v) = ps @ [s @ CHR ''{'' # v]" by blast
  let ?p = "s @ CHR ''{'' # v"
  have "last ?p \<noteq> CHR ''}''"
    using v by (cases "v = []") (auto dest: last_in_set)
  then have nb: "\<not> is_blank_part ?p"
    by (simp add: is_blank_part_def endsWith_rbrace_def)
  have "parts_of (u @ CHR ''{'' # v) = filter (\<lambda>p. p \<noteq> []) ps @ [?p]"
    by (simp add: parts_of_alt sp)
  then have "tokens_from 0 (parts_of (u @ CHR ''{'' # v)) =
      tokens_from 0 (filter (\<lambda>p. p \<noteq> []) ps) @ [Text ?p]"
    using nb by (simp add: tokens_from_snoc_text)
  then show "\<exists>ts s. sentenceTemplate (parseFillInBlanks (u @ CHR ''{'' # v)) =
                  ts @ [Text (s @ CHR ''{'' # v)] \<and>
                correctWords (parseFillInBlanks (u @ CHR ''{'' # v)) = blank_words ts"
    by (simp add: parse_eq blank_words_snoc_text)
qed

theorem unterminated_brace_is_text_witness:
  "CHR ''}'' \<notin> set ''d'' \<and>
   concat (parts_of ''a{b}c{d'') = ''a{b}c{d'' \<and>
   (\<exists>ts s. sentenceTemplate (parseFillInBlanks ''a{b}c{d'') = ts @ [Text (s @ ''{d'')] \<and>
            correctWords (parseFillInBlanks ''a{b}c{d'') = blank_words ts)"
  using unterminated_brace_is_text [of "''a{b}c{d''" "''d''" "''a{b}c''"] by simp

section \<open>The activity document\<close>

text \<open>
  The fields \<^verbatim>\<open>id\<close>, \<^verbatim>\<open>text\<close>, \<^verbatim>\<open>type\<close>, \<^verbatim>\<open>isCorrect\<close> (of an option) and \<^verbatim>\<open>image\<close> carry a prefix
  here. A draft of the editor always has every field of \<^verbatim>\<open>initialActivityData\<close>, with
  strings for \<^verbatim>\<open>title\<close> and the \<^verbatim>\<open>text\<close> of every element; \<^verbatim>\<open>wordPool\<close> is the field the
  learner's demo data carries instead of \<^verbatim>\<open>wordBlocks\<close>. An absent field is \<open>None\<close>.
  \<open>OtherType\<close> is any type string outside the five the editor offers. The identifier
  of a stored activity is the clock reading the reducer gives it.
\<close>

record mediaElement =
  el_id :: nat
  el_text :: string
  el_translation :: string
  el_audioFile :: "(string \<times> string) option"
  el_audioUrl :: string

record optionElement = mediaElement +
  opt_isCorrect :: bool

record pairElement = mediaElement +
  pair_image :: string

datatype activityType =
  MultipleChoice | FillInBlanks | Ordering | Dialogue | MatchImage | OtherType

record activity =
  act_id :: nat
  act_type :: activityType
  title :: string
  description :: string
  question :: mediaElement
  options :: "optionElement list"
  items :: "mediaElement list"
  pairs :: "pairElement list"
  wordBlocks :: "string list option"
  wordPool :: "string list option"
  difficulty :: string
  timeEstimate :: nat

definition initialMediaElement :: "nat \<Rightarrow> mediaElement" where
  "initialMediaElement t0 =
     \<lparr>el_id = t0, el_text = [], el_translation = [], el_audioFile = None, el_audioUrl = []\<rparr>"

definition initialOption :: "nat \<Rightarrow> bool \<Rightarrow> optionElement" where
  "initialOption t0 c =
     \<lparr>el_id = t0, el_text = [], el_translation = [], el_audioFile = None, el_audioUrl = [],
      opt_isCorrect = c\<rparr>"

definition initialPair :: "nat \<Rightarrow> pairElement" where
  "initialPair t0 =
     \<lparr>el_id = t0, el_text = [], el_translation = [], el_audioFile = None, el_audioUrl = [],
      pair_image = []\<rparr>"

definition initialActivityData :: "nat \<Rightarrow> activity" where
  "initialActivityData t0 =
     \<lparr>act_id = t0, act_type = MultipleChoice, title = [], description = [],
      question = initialMediaElement t0,
      options = [initialOption t0 True, initialOption t0 False, initialOption t0 False],
      items = [initialMediaElement t0],
      pairs = [initialPair t0],
      wordBlocks = Some [], wordPool = None,
      difficulty = ''beginner'', timeEstimate = 5\<rparr>"

text \<open>
  The distractor-word input of the editor: the value is split at commas, each piece
  trimmed, and the empty pieces dropped; the result is stored in \<^verbatim>\<open>wordBlocks\<close>.
\<close>

fun split_comma :: "string \<Rightarrow> string list" where
  "split_comma [] = [[]]"
| "split_comma (c # cs) =
     (if c = CHR '','' then [] # split_comma cs else cons_first c (split_comma cs))"

definition setWordBlocks :: "string \<Rightarrow> activity \<Rightarrow> activity" where
  "setWordBlocks v prev = prev\<lparr>wordBlocks := Some (filter (\<lambda>w. w \<noteq> []) (map trim (split_comma v)))\<rparr>"

section \<open>The activity validator\<close>

definition validateActivity :: "activity \<Rightarrow> string list" where
  "validateActivity activity =
     (let errors = [];
          errors = (if trim (title activity) = []
                    then errors @ [''Activity title is required''] else errors);
          errors = (if trim (el_text (question activity)) = []
                    then errors @ [''Question text is required''] else errors)
      in (case act_type activity of
            MultipleChoice \<Rightarrow>
              (let validOptions = filter (\<lambda>opt. trim (el_text opt) \<noteq> []) (options activity);
                   errors = (if length validOptions < 2
                             then errors @ [''At least 2 options are required''] else errors)
               in (if \<not> list_ex opt_isCorrect (options activity)
                   then errors @ [''One option must be marked as correct''] else errors))
          | Ordering \<Rightarrow>
              (if length (items activity) < 2
               then errors @ [''At least 2 items are required''] else errors)
          | Dialogue \<Rightarrow>
              (if length (items activity) < 2
               then errors @ [''At least 2 items are required''] else errors)
          | MatchImage \<Rightarrow>
              (if length (pairs activity) < 2
               then errors @ [''At least 2 pairs are required''] else errors)
          | FillInBlanks \<Rightarrow>
              (if CHR ''{'' \<notin> set (el_text (question activity))
               then errors @ [''Sentence must contain blanks marked with {word}'']
               else errors)
          | OtherType \<Rightarrow> errors))"

text \<open>The draft the editor holds after the type, the title, and the question text were set.\<close>

definition draftActivity :: "activityType \<Rightarrow> string \<Rightarrow> string \<Rightarrow> activity" where
  "draftActivity ty ti tx =
     (initialActivityData 0)
       \<lparr>act_type := ty, title := ti, question := (initialMediaElement 0)\<lparr>el_text := tx\<rparr>\<rparr>"

subsection \<open>Claims about the validator\<close>

text \<open>
  Claim C4: a multiple-choice activity with a non-blank title, a non-blank question
  text, exactly one option with non-blank text and no option marked correct gets
  exactly the two errors "At least 2 options are required" and "One option must be
  marked as correct", in this order.
\<close>

theorem validate_multiple_choice_one_option:
  assumes "act_type a = MultipleChoice"
    and "trim (title a) \<noteq> []"
    and "trim (el_text (question a)) \<noteq> []"
    and "length (filter (\<lambda>opt. trim (el_text opt) \<noteq> []) (options a)) = 1"
    and "\<not> list_ex opt_isCorrect (options a)"
  shows "validateActivity a =
           [''At least 2 options are required'', ''One option must be marked as correct'']"
  using assms by (simp add: validateActivity_def)

theorem validate_multiple_choice_one_option_witness:
  "validateActivity
     ((draftActivity MultipleChoice ''T'' ''Q'')
        \<lparr>options := [(initialOption 0 False)\<lparr>el_text := ''Sba7 L5eer''\<rparr>, initialOption 0 False]\<rparr>) =
   [''At least 2 options are required'', ''One option must be marked as correct'']"
  by (rule validate_multiple_choice_one_option)
     (simp_all add: draftActivity_def initialActivityData_def initialOption_def
        initialMediaElement_def trim_def is_white_space_def is_line_terminator_def)




section \<open>The lesson reducer\<close>

datatype view = ListView | SetupView | BuilderView

record lesson =
  lesson_id :: nat
  lesson_title :: string
  lesson_description :: string
  level :: string
  objectives :: "string list"
  introParts :: "string list"
  activities :: "activity list"
  tags :: "string list"
  currentView :: view
  isSaved :: bool
  isPublished :: bool
  createdAt :: nat
  updatedAt :: nat

text \<open>
  Times are clock readings in milliseconds; \<^verbatim>\<open>toISOString\<close> of a reading is an
  encoding that keeps their order. \<open>initialLessonState t0\<close> is the module constant, built
  once from the clock reading \<open>t0\<close> taken when the module is loaded.
\<close>

definition initialLessonState :: "nat \<Rightarrow> lesson" where
  "initialLessonState t0 =
     \<lparr>lesson_id = t0, lesson_title = [], lesson_description = [], level = ''beginner'',
      objectives = [[]], introParts = [[]], activities = [], tags = [],
      currentView = ListView, isSaved = False, isPublished = False,
      createdAt = t0, updatedAt = t0\<rparr>"

text \<open>The computed key \<^verbatim>\<open>[action.field]: action.value\<close> of \<^verbatim>\<open>SET_FIELD\<close>, one constructor per field.\<close>

datatype fieldValue =
  Field_id nat
  | Field_title string
  | Field_description string
  | Field_level string
  | Field_objectives "string list"
  | Field_introParts "string list"
  | Field_activities "activity list"
  | Field_tags "string list"
  | Field_currentView view
  | Field_isSaved bool
  | Field_isPublished bool
  | Field_createdAt nat
  | Field_updatedAt nat

fun setField :: "fieldValue \<Rightarrow> lesson \<Rightarrow> lesson" where
  "setField (Field_id v) s = s\<lparr>lesson_id := v\<rparr>"
| "setField (Field_title v) s = s\<lparr>lesson_title := v\<rparr>"
| "setField (Field_description v) s = s\<lparr>lesson_description := v\<rparr>"
| "setField (Field_level v) s = s\<lparr>level := v\<rparr>"
| "setField (Field_objectives v) s = s\<lparr>objectives := v\<rparr>"
| "setField (Field_introParts v) s = s\<lparr>introParts := v\<rparr>"
| "setField (Field_activities v) s = s\<lparr>activities := v\<rparr>"
| "setField (Field_tags v) s = s\<lparr>tags := v\<rparr>"
| "setField (Field_currentView v) s = s\<lparr>currentView := v\<rparr>"
| "setField (Field_isSaved v) s = s\<lparr>isSaved := v\<rparr>"
| "setField (Field_isPublished v) s = s\<lparr>isPublished := v\<rparr>"
| "setField (Field_createdAt v) s = s\<lparr>createdAt := v\<rparr>"
| "setField (Field_updatedAt v) s = s\<lparr>updatedAt := v\<rparr>"

datatype action =
  SET_FIELD fieldValue
  | ADD_ACTIVITY activity
  | UPDATE_ACTIVITY nat activity
  | DELETE_ACTIVITY nat
  | REORDER_ACTIVITIES "activity list"
  | SET_VIEW view
  | RESET_LESSON
  | LOAD_LESSON lesson
  | OTHER_ACTION

text \<open>
  \<open>lessonReducer t0 now state action\<close>: \<open>t0\<close> is the reading held by
  \<open>initialLessonState\<close>, \<open>now\<close> the clock reading during the call.
\<close>

fun lessonReducer :: "nat \<Rightarrow> nat \<Rightarrow> lesson \<Rightarrow> action \<Rightarrow> lesson" where
  "lessonReducer t0 now state (SET_FIELD fv) = (setField fv state)\<lparr>updatedAt := now\<rparr>"
| "lessonReducer t0 now state (ADD_ACTIVITY activity) =
     state\<lparr>activities := activities state @ [activity\<lparr>act_id := now\<rparr>], updatedAt := now\<rparr>"
| "lessonReducer t0 now state (UPDATE_ACTIVITY i activity) =
     state\<lparr>activities :=
             map (\<lambda>act. if act_id act = i then activity\<lparr>act_id := act_id act\<rparr> else act)
               (activities state),
           updatedAt := now\<rparr>"
| "lessonReducer t0 now state (DELETE_ACTIVITY i) =
     state\<lparr>activities := filter (\<lambda>act. act_id act \<noteq> i) (activities state), updatedAt := now\<rparr>"
| "lessonReducer t0 now state (REORDER_ACTIVITIES acts) =
     state\<lparr>activities := acts, updatedAt := now\<rparr>"
| "lessonReducer t0 now state (SET_VIEW v) = state\<lparr>currentView := v\<rparr>"
| "lessonReducer t0 now state RESET_LESSON =
     (initialLessonState t0)\<lparr>lesson_id := now, currentView := SetupView\<rparr>"
| "lessonReducer t0 now state (LOAD_LESSON l) = l\<lparr>currentView := SetupView, updatedAt := now\<rparr>"
| "lessonReducer t0 now state OTHER_ACTION = state"

text \<open>
  A session: the actions dispatched, each with the clock reading at its dispatch;
  \<open>dispatchAll\<close> lists the states the reducer goes through.
\<close>

fun dispatchAll :: "nat \<Rightarrow> lesson \<Rightarrow> (nat \<times> action) list \<Rightarrow> lesson list" where
  "dispatchAll t0 state [] = [state]"
| "dispatchAll t0 state ((now, a) # evs) = state # dispatchAll t0 (lessonReducer t0 now state a) evs"

fun isMutation :: "action \<Rightarrow> bool" where
  "isMutation (SET_FIELD fv) = True"
| "isMutation (ADD_ACTIVITY activity) = True"
| "isMutation (UPDATE_ACTIVITY i activity) = True"
| "isMutation (DELETE_ACTIVITY i) = True"
| "isMutation (REORDER_ACTIVITIES acts) = True"
| "isMutation (LOAD_LESSON l) = True"
| "isMutation a = False"

fun isReset :: "action \<Rightarrow> bool" where
  "isReset RESET_LESSON = True"
| "isReset a = False"

text \<open>
  \<^verbatim>\<open>saveActivity\<close> for a new activity: the draft is dispatched only when the validator
  returns no error.
\<close>

definition saveActivity :: "nat \<Rightarrow> nat \<Rightarrow> activity \<Rightarrow> lesson \<Rightarrow> lesson" where
  "saveActivity t0 now tempActivity state =
     (if length (validateActivity tempActivity) > 0 then state
      else lessonReducer t0 now state (ADD_ACTIVITY tempActivity))"

definition authoredLesson :: lesson where
  "authoredLesson =
     saveActivity 0 1
       (setWordBlocks ''nta, labass''
          (draftActivity FillInBlanks ''Greeting'' ''Smeety Alex, o {nty}?''))
       (initialLessonState 0)"

lemma updatedAt_step:
  "\<not> isReset a \<Longrightarrow>
     updatedAt (lessonReducer t0 now s a) = now \<or>
     updatedAt (lessonReducer t0 now s a) = updatedAt s"
  by (cases a) simp_all

lemma dispatchAll_hd: "\<exists>rest. dispatchAll t0 s evs = s # rest"
  by (cases evs) auto

lemma dispatchAll_sorted:
  "sorted (map fst evs) \<Longrightarrow> list_all (\<lambda>(now, a). updatedAt s \<le> now \<and> \<not> isReset a) evs \<Longrightarrow>
     sorted (map updatedAt (dispatchAll t0 s evs))"
proof (induction evs arbitrary: s)
  case Nil
  then show ?case by simp
next
  case (Cons ev evs)
  obtain now a where ev: "ev = (now, a)" by (cases ev)
  let ?s' = "lessonReducer t0 now s a"
  from Cons.prems ev have le: "updatedAt s \<le> now" and nr: "\<not> isReset a" by simp_all
  from updatedAt_step [OF nr, of t0 now s] le
  have s': "updatedAt s \<le> updatedAt ?s'" "updatedAt ?s' \<le> now" by auto
  have later: "list_all (\<lambda>(t, a). updatedAt ?s' \<le> t \<and> \<not> isReset a) evs"
    using Cons.prems ev s'(2) by (auto simp: list_all_iff)
  from Cons.prems have "sorted (map fst evs)" by simp
  from Cons.IH [OF this later] have srt: "sorted (map updatedAt (dispatchAll t0 ?s' evs))" .
  obtain rest where r: "dispatchAll t0 ?s' evs = ?s' # rest"
    using dispatchAll_hd by blast
  with srt have "\<forall>x \<in> set (map updatedAt (dispatchAll t0 ?s' evs)). updatedAt ?s' \<le> x"
    by auto
  with s'(1) have "\<forall>x \<in> set (map updatedAt (dispatchAll t0 ?s' evs)). updatedAt s \<le> x"
    by auto
  with srt ev show ?case by simp
qed

subsection \<open>Claims about the reducer\<close>

text \<open>
  Claim C8, as stated, fails at \<^verbatim>\<open>RESET_LESSON\<close>, which is no view change: the new
  lesson takes \<^verbatim>\<open>updatedAt\<close> from \<^verbatim>\<open>initialLessonState\<close>, the reading of the time the
  module was loaded, so after an edit at time 5 a reset at time 6 sets it back to 0.
\<close>

theorem reducer_reset_counterexample:
  "updatedAt (lessonReducer 0 5 (initialLessonState 0) (SET_FIELD (Field_title ''L1''))) = 5 \<and>
   updatedAt (lessonReducer 0 6
      (lessonReducer 0 5 (initialLessonState 0) (SET_FIELD (Field_title ''L1''))) RESET_LESSON) = 0 \<and>
   map updatedAt (dispatchAll 0 (initialLessonState 0)
      [(5, SET_FIELD (Field_title ''L1'')), (6, RESET_LESSON)]) = [0, 5, 0]"
  by (simp add: initialLessonState_def)

text \<open>
  Claim C8, amended: \<^verbatim>\<open>SET_FIELD\<close>, \<^verbatim>\<open>ADD_ACTIVITY\<close>, \<^verbatim>\<open>UPDATE_ACTIVITY\<close>,
  \<^verbatim>\<open>DELETE_ACTIVITY\<close>, \<^verbatim>\<open>REORDER_ACTIVITIES\<close> and \<^verbatim>\<open>LOAD_LESSON\<close> stamp \<^verbatim>\<open>updatedAt\<close> with
  the current time, \<^verbatim>\<open>SET_VIEW\<close> leaves it as it is, and across any sequence of
  dispatched actions without a \<^verbatim>\<open>RESET_LESSON\<close>, dispatched at non-decreasing times
  not before the first state's stamp, \<^verbatim>\<open>updatedAt\<close> never decreases.
\<close>

theorem reducer_stamps_updatedAt:
  "(isMutation a \<longrightarrow> updatedAt (lessonReducer t0 now s a) = now) \<and>
   updatedAt (lessonReducer t0 now s (SET_VIEW v)) = updatedAt s \<and>
   (sorted (map fst evs) \<and> list_all (\<lambda>(now, a). updatedAt s \<le> now \<and> \<not> isReset a) evs \<longrightarrow>
      sorted (map updatedAt (dispatchAll t0 s evs)))"
proof (intro conjI impI)
  assume "isMutation a"
  then show "updatedAt (lessonReducer t0 now s a) = now"
    by (cases a) simp_all
next
  show "updatedAt (lessonReducer t0 now s (SET_VIEW v)) = updatedAt s"
    by simp
next
  assume "sorted (map fst evs) \<and> list_all (\<lambda>(now, a). updatedAt s \<le> now \<and> \<not> isReset a) evs"
  then show "sorted (map updatedAt (dispatchAll t0 s evs))"
    by (simp add: dispatchAll_sorted)
qed

theorem reducer_stamps_updatedAt_witness:
  "updatedAt (lessonReducer 0 7 (initialLessonState 0) (SET_FIELD (Field_title ''L1''))) = 7 \<and>
   map updatedAt (dispatchAll 0 (initialLessonState 0)
     [(3, SET_VIEW SetupView), (5, SET_FIELD (Field_title ''L1'')),
      (5, SET_VIEW BuilderView), (9, ADD_ACTIVITY (initialActivityData 8))]) = [0, 0, 5, 5, 9] \<and>
   sorted (map updatedAt (dispatchAll 0 (initialLessonState 0)
     [(3, SET_VIEW SetupView), (5, SET_FIELD (Field_title ''L1'')),
      (5, SET_VIEW BuilderView), (9, ADD_ACTIVITY (initialActivityData 8))]))"
  using reducer_stamps_updatedAt [of "SET_FIELD (Field_title ''L1'')" 0 7 "initialLessonState 0"
      SetupView "[(3, SET_VIEW SetupView), (5, SET_FIELD (Field_title ''L1'')),
      (5, SET_VIEW BuilderView), (9, ADD_ACTIVITY (initialActivityData 8))]"]
  by (simp add: initialLessonState_def)

section \<open>The learner's quiz\<close>

record quizState =
  step :: nat
  isAnswered :: bool
  isCorrect :: bool
  selectedAnswer :: "string option"
  matchingState :: "(string \<times> string) list"
  blanksState :: "nat \<rightharpoonup> string"
  availableWords :: "string list"

definition initialQuizState :: quizState where
  "initialQuizState =
     \<lparr>step = 0, isAnswered = False, isCorrect = False, selectedAnswer = None,
      matchingState = [], blanksState = Map.empty, availableWords = []\<rparr>"

datatype error = TypeError

definition totalSteps :: "activity list \<Rightarrow> nat" where
  "totalSteps acts = length acts + 1"

text \<open>
  \<^verbatim>\<open>lessonData.activities[step - 1]\<close>, read on a step after the intro; \<open>None\<close> is
  \<^verbatim>\<open>undefined\<close>, the value of an index past the end.
\<close>

definition currentContent :: "activity list \<Rightarrow> nat \<Rightarrow> activity option" where
  "currentContent acts s = (if s - 1 < length acts then Some (acts ! (s - 1)) else None)"

text \<open>
  The values derived on every render. Reading \<^verbatim>\<open>currentContent.type\<close> of
  \<^verbatim>\<open>undefined\<close> throws.
\<close>

definition derivedTemplate :: "activity list \<Rightarrow> quizState \<Rightarrow> error + parsed" where
  "derivedTemplate acts st =
     (if step st > 0 then
        (case currentContent acts (step st) of
           None \<Rightarrow> Inl TypeError
         | Some a \<Rightarrow>
             if act_type a = FillInBlanks then Inr (parseFillInBlanks (el_text (question a)))
             else Inr \<lparr>sentenceTemplate = [], correctWords = []\<rparr>)
      else Inr \<lparr>sentenceTemplate = [], correctWords = []\<rparr>)"

fun tokenBlank :: "token \<Rightarrow> nat option" where
  "tokenBlank (Text s) = None"
| "tokenBlank (Blank i w) = Some i"

fun tokenCorrect :: "token \<Rightarrow> string option" where
  "tokenCorrect (Text s) = None"
| "tokenCorrect (Blank i w) = Some w"

definition blankPartsOf :: "token list \<Rightarrow> token list" where
  "blankPartsOf tpl = filter (\<lambda>p. tokenBlank p \<noteq> None) tpl"

definition allBlanksFilled :: "token list \<Rightarrow> quizState \<Rightarrow> bool" where
  "allBlanksFilled blankParts st \<longleftrightarrow> card (dom (blanksState st)) = length blankParts"

text \<open>\<^verbatim>\<open>blanksState[p.blank]\<close>; \<open>None\<close> is \<^verbatim>\<open>undefined\<close>.\<close>

definition slotOf :: "(nat \<rightharpoonup> string) \<Rightarrow> token \<Rightarrow> string option" where
  "slotOf bs p = (case tokenBlank p of None \<Rightarrow> None | Some i \<Rightarrow> bs i)"

text \<open>
  The effect that runs after a render in which \<^verbatim>\<open>step\<close> or \<^verbatim>\<open>isAnswered\<close> changed.
  \<open>shuffle\<close> is the sort with a random comparison; spreading \<^verbatim>\<open>currentContent.wordPool\<close>
  throws when the field is absent.
\<close>

definition wordBlockEffect ::
  "(string list \<Rightarrow> string list) \<Rightarrow> activity list \<Rightarrow> quizState \<Rightarrow> error + quizState" where
  "wordBlockEffect shuffle acts st =
     (if step st > 0 then
        (case currentContent acts (step st) of
           None \<Rightarrow> Inl TypeError
         | Some a \<Rightarrow>
             if act_type a = FillInBlanks \<and> \<not> isAnswered st then
               (case wordPool a of
                  None \<Rightarrow> Inl TypeError
                | Some ws \<Rightarrow> Inr (st\<lparr>availableWords := shuffle ws, blanksState := Map.empty\<rparr>))
             else Inr st)
      else Inr st)"

definition handleWordBlockTap :: "token list \<Rightarrow> string \<Rightarrow> quizState \<Rightarrow> quizState" where
  "handleWordBlockTap blankParts word st =
     (if isAnswered st then st
      else (case find (\<lambda>p. slotOf (blanksState st) p = None) blankParts of
              None \<Rightarrow> st
            | Some p \<Rightarrow>
                (case tokenBlank p of
                   None \<Rightarrow> st
                 | Some nextBlankIndex \<Rightarrow>
                     st\<lparr>blanksState := (blanksState st)(nextBlankIndex \<mapsto> word),
                        availableWords := filter (\<lambda>w. w \<noteq> word) (availableWords st)\<rparr>)))"

definition handleBlankClick ::
  "(string list \<Rightarrow> string list) \<Rightarrow> nat \<Rightarrow> quizState \<Rightarrow> quizState" where
  "handleBlankClick shuffle blankIndex st =
     (if isAnswered st then st
      else (case blanksState st blankIndex of
              None \<Rightarrow> st
            | Some wordToReturn \<Rightarrow>
                if wordToReturn \<noteq> [] then
                  st\<lparr>blanksState := (blanksState st)(blankIndex := None),
                     availableWords := shuffle (availableWords st @ [wordToReturn])\<rparr>
                else st))"

definition handleAnswerSelect :: "string \<Rightarrow> quizState \<Rightarrow> quizState" where
  "handleAnswerSelect answerId st = (if isAnswered st then st else st\<lparr>selectedAnswer := Some answerId\<rparr>)"

definition checkAnswer :: "activity list \<Rightarrow> token list \<Rightarrow> quizState \<Rightarrow> error + quizState" where
  "checkAnswer acts blankParts st =
     (if step st = 0 then Inr (st\<lparr>isCorrect := True, isAnswered := True\<rparr>)
      else (case currentContent acts (step st) of
              None \<Rightarrow> Inl TypeError
            | Some a \<Rightarrow>
                (let correct =
                   (case act_type a of
                      MultipleChoice \<Rightarrow>
                        (case find (\<lambda>opt. Some (el_text opt) = selectedAnswer st) (options a) of
                           None \<Rightarrow> False
                         | Some opt \<Rightarrow> opt_isCorrect opt)
                    | FillInBlanks \<Rightarrow>
                        list_all (\<lambda>part. slotOf (blanksState st) part = tokenCorrect part) blankParts
                    | Dialogue \<Rightarrow> True
                    | MatchImage \<Rightarrow> True
                    | Ordering \<Rightarrow> True
                    | OtherType \<Rightarrow> False)
                 in Inr (st\<lparr>isCorrect := correct, isAnswered := True\<rparr>))))"

definition handleContinue :: "activity list \<Rightarrow> quizState \<Rightarrow> quizState" where
  "handleContinue acts st =
     (if step st < totalSteps acts then
        st\<lparr>step := step st + 1, isAnswered := False, isCorrect := False,
           selectedAnswer := None, blanksState := Map.empty, matchingState := []\<rparr>
      else st)"

text \<open>
  The footer offers the check button while the step is unanswered and the continue
  button afterwards; \<open>footerContinue\<close> is a press of the continue button where the footer
  shows it.
\<close>

definition footerContinue :: "activity list \<Rightarrow> quizState \<Rightarrow> quizState" where
  "footerContinue acts st = (if isAnswered st then handleContinue acts st else st)"

text \<open>
  One step as the learner goes through it: the render derives the template (and throws
  where it reads past the activities), the effect runs, the learner presses the check
  button and then the continue button of the footer.
\<close>

definition playStep ::
  "(string list \<Rightarrow> string list) \<Rightarrow> activity list \<Rightarrow> quizState \<Rightarrow> error + quizState" where
  "playStep shuffle acts st =
     (case derivedTemplate acts st of
        Inl e \<Rightarrow> Inl e
      | Inr p \<Rightarrow>
          (case wordBlockEffect shuffle acts st of
             Inl e \<Rightarrow> Inl e
           | Inr st1 \<Rightarrow>
               (case checkAnswer acts (blankPartsOf (sentenceTemplate p)) st1 of
                  Inl e \<Rightarrow> Inl e
                | Inr st2 \<Rightarrow> Inr (footerContinue acts st2))))"

fun playSteps ::
  "nat \<Rightarrow> (string list \<Rightarrow> string list) \<Rightarrow> activity list \<Rightarrow> quizState \<Rightarrow> error + quizState" where
  "playSteps 0 shuffle acts st = Inr st"
| "playSteps (Suc n) shuffle acts st =
     (case playStep shuffle acts st of
        Inl e \<Rightarrow> Inl e
      | Inr st' \<Rightarrow> playSteps n shuffle acts st')"

text \<open>A lesson of four dialogue activities.\<close>

definition dialogueLesson :: "activity list" where
  "dialogueLesson = replicate 4 (draftActivity Dialogue ''T'' ''Q'')"

subsection \<open>Claims about the quiz\<close>

text \<open>
  On entering a fill-in-blanks step with a \<^verbatim>\<open>wordPool\<close>, the effect sets the available
  words to a permutation of the pool and empties the blanks; without a \<^verbatim>\<open>wordPool\<close> it
  throws.
\<close>

lemma wordBlockEffect_wordPool:
  assumes "0 < step st" "currentContent acts (step st) = Some a" "act_type a = FillInBlanks"
    "\<not> isAnswered st" "wordPool a = Some ws" "mset (shuffle ws) = mset ws"
  shows "\<exists>st'. wordBlockEffect shuffle acts st = Inr st' \<and>
            mset (availableWords st') = mset ws \<and> blanksState st' = Map.empty"
  using assms by (simp add: wordBlockEffect_def)

lemma wordBlockEffect_no_wordPool:
  assumes "0 < step st" "currentContent acts (step st) = Some a" "act_type a = FillInBlanks"
    "\<not> isAnswered st" "wordPool a = None"
  shows "wordBlockEffect shuffle acts st = Inl TypeError"
  using assms by (simp add: wordBlockEffect_def)

text \<open>
  Claim C1 at an activity saved by the editor: the activity passes the validator and
  carries its words in \<^verbatim>\<open>wordBlocks\<close>; it has no \<^verbatim>\<open>wordPool\<close>, the only field the
  learner reads, and the effect that runs on entering its step throws a TypeError,
  whatever the shuffle.
\<close>

theorem authored_activity_breaks_learner:
  "map validateActivity (activities authoredLesson) = [[]] \<and>
   map wordBlocks (activities authoredLesson) = [Some [''nta'', ''labass'']] \<and>
   map wordPool (activities authoredLesson) = [None] \<and>
   wordBlockEffect shuffle (activities authoredLesson)
     (handleContinue (activities authoredLesson) initialQuizState) = Inl TypeError"
  by (simp add: authoredLesson_def saveActivity_def setWordBlocks_def draftActivity_def
      initialActivityData_def initialMediaElement_def initialLessonState_def
      validateActivity_def trim_def is_white_space_def is_line_terminator_def
      wordBlockEffect_def handleContinue_def initialQuizState_def totalSteps_def
      currentContent_def Let_def)

text \<open>
  Below \<^verbatim>\<open>totalSteps\<close> a continue advances the step by one and resets the answer state;
  the footer offers it only once the step is answered.
\<close>

lemma handleContinue_below:
  "step st < totalSteps acts \<Longrightarrow>
     handleContinue acts st =
       st\<lparr>step := step st + 1, isAnswered := False, isCorrect := False,
          selectedAnswer := None, blanksState := Map.empty, matchingState := []\<rparr>"
  by (simp add: handleContinue_def)

lemma footerContinue_unanswered: "\<not> isAnswered st \<Longrightarrow> footerContinue acts st = st"
  by (simp add: footerContinue_def)

lemma playStep_dialogue:
  "playStep shuffle dialogueLesson (initialQuizState\<lparr>step := k\<rparr>) =
     (if k < 5 then Inr (initialQuizState\<lparr>step := Suc k\<rparr>) else Inl TypeError)"
  by (cases "k = 0")
     (auto simp: playStep_def derivedTemplate_def wordBlockEffect_def checkAnswer_def
      footerContinue_def handleContinue_def totalSteps_def currentContent_def
      draftActivity_def initialActivityData_def initialQuizState_def dialogueLesson_def)

text \<open>
  At \<^verbatim>\<open>step = totalSteps\<close> the render itself reads past the end of the activities, before
  it reaches the completion screen.
\<close>

lemma derivedTemplate_terminal:
  "step st = totalSteps acts \<Longrightarrow> derivedTemplate acts st = Inl TypeError"
  by (simp add: derivedTemplate_def totalSteps_def currentContent_def)

text \<open>
  Claim C2 at a lesson of four activities: five rounds of check and continue from the
  intro reach \<^verbatim>\<open>step = totalSteps = 5\<close>, and the render of that state throws a TypeError
  instead of showing the completion screen; there is no terminal state in which a
  further continue could be refused.
\<close>

theorem completion_state_throws:
  "totalSteps dialogueLesson = 5 \<and>
   playSteps 5 shuffle dialogueLesson initialQuizState = Inr (initialQuizState\<lparr>step := 5\<rparr>) \<and>
   derivedTemplate dialogueLesson (initialQuizState\<lparr>step := 5\<rparr>) = Inl TypeError \<and>
   playSteps 6 shuffle dialogueLesson initialQuizState = Inl TypeError"
proof -
  have s0: "initialQuizState = initialQuizState\<lparr>step := 0\<rparr>"
    by (simp add: initialQuizState_def)
  have five: "playSteps 5 shuffle dialogueLesson (initialQuizState\<lparr>step := 0\<rparr>) =
      Inr (initialQuizState\<lparr>step := 5\<rparr>)"
    by (simp add: eval_nat_numeral playStep_dialogue)
  have six: "playSteps 6 shuffle dialogueLesson (initialQuizState\<lparr>step := 0\<rparr>) = Inl TypeError"
    by (simp add: eval_nat_numeral playStep_dialogue)
  have d: "derivedTemplate dialogueLesson (initialQuizState\<lparr>step := 5\<rparr>) = Inl TypeError"
    by (simp add: derivedTemplate_def currentContent_def dialogueLesson_def)
  have t: "totalSteps dialogueLesson = 5"
    by (simp add: totalSteps_def dialogueLesson_def)
  show ?thesis
    using five six d t by (subst (1 2) s0) simp
qed

lemma find_first_match:
  "P x \<Longrightarrow> \<forall>y \<in> set pre. \<not> P y \<Longrightarrow> find P (pre @ x # post) = Some x"
  by (induction pre) auto

text \<open>
  Claim C10: on a multiple-choice step \<^verbatim>\<open>checkAnswer\<close> returns normally with
  \<^verbatim>\<open>isAnswered\<close> set; \<^verbatim>\<open>isCorrect\<close> is the flag of the first option whose text equals
  \<^verbatim>\<open>selectedAnswer\<close>, and false when no option matches, in particular when nothing was
  selected; of several options with the same text only the first one counts.
\<close>

theorem checkAnswer_multiple_choice:
  assumes "0 < step st" "currentContent acts (step st) = Some a" "act_type a = MultipleChoice"
  shows "\<exists>st'. checkAnswer acts blankParts st = Inr st' \<and> isAnswered st' \<and>
           (isCorrect st' \<longleftrightarrow>
              (case find (\<lambda>opt. Some (el_text opt) = selectedAnswer st) (options a) of
                 None \<Rightarrow> False | Some opt \<Rightarrow> opt_isCorrect opt)) \<and>
           ((\<forall>opt \<in> set (options a). Some (el_text opt) \<noteq> selectedAnswer st) \<longrightarrow> \<not> isCorrect st') \<and>
           (selectedAnswer st = None \<longrightarrow> \<not> isCorrect st') \<and>
           (\<forall>pre opt post. options a = pre @ opt # post \<and> Some (el_text opt) = selectedAnswer st \<and>
               (\<forall>o' \<in> set pre. el_text o' \<noteq> el_text opt) \<longrightarrow> isCorrect st' = opt_isCorrect opt)"
proof -
  let ?P = "\<lambda>opt :: optionElement. Some (el_text opt) = selectedAnswer st"
  let ?c = "case find ?P (options a) of None \<Rightarrow> False | Some opt \<Rightarrow> opt_isCorrect opt"
  let ?st' = "st\<lparr>isCorrect := ?c, isAnswered := True\<rparr>"
  have r: "checkAnswer acts blankParts st = Inr ?st'"
    using assms by (simp add: checkAnswer_def)
  have none: "(\<forall>opt \<in> set (options a). \<not> ?P opt) \<longrightarrow> \<not> ?c"
    by (auto simp: find_None_iff [THEN iffD2] split: option.splits dest: find_Some_iff [THEN iffD1])
  have null: "selectedAnswer st = None \<longrightarrow> \<not> ?c"
    using none by auto
  have first: "\<forall>pre opt post. options a = pre @ opt # post \<and> ?P opt \<and>
      (\<forall>o' \<in> set pre. el_text o' \<noteq> el_text opt) \<longrightarrow> ?c = opt_isCorrect opt"
  proof (intro allI impI, elim conjE)
    fix pre opt post
    assume o: "options a = pre @ opt # post" and p: "?P opt"
      and d: "\<forall>o' \<in> set pre. el_text o' \<noteq> el_text opt"
    from p d have "\<forall>y \<in> set pre. \<not> ?P y" by (metis option.inject)
    with p have "find ?P (pre @ opt # post) = Some opt" by (intro find_first_match)
    with o show "?c = opt_isCorrect opt" by simp
  qed
  show ?thesis
    using r none null first by (intro exI [of _ ?st']) simp
qed

theorem checkAnswer_multiple_choice_witness:
  "checkAnswer
     [(draftActivity MultipleChoice ''T'' ''Q'')
        \<lparr>options := [(initialOption 0 False)\<lparr>el_text := ''Msa L5eer''\<rparr>,
                     (initialOption 0 True)\<lparr>el_text := ''Sba7 L5eer''\<rparr>,
                     (initialOption 0 False)\<lparr>el_text := ''Sba7 L5eer''\<rparr>]\<rparr>]
     [] (initialQuizState\<lparr>step := 1, selectedAnswer := Some ''Sba7 L5eer''\<rparr>) =
   Inr (initialQuizState\<lparr>step := 1, selectedAnswer := Some ''Sba7 L5eer'',
          isCorrect := True, isAnswered := True\<rparr>) \<and>
   checkAnswer
     [(draftActivity MultipleChoice ''T'' ''Q'')
        \<lparr>options := [(initialOption 0 False)\<lparr>el_text := ''Msa L5eer''\<rparr>,
                     (initialOption 0 True)\<lparr>el_text := ''Sba7 L5eer''\<rparr>,
                     (initialOption 0 False)\<lparr>el_text := ''Sba7 L5eer''\<rparr>]\<rparr>]
     [] (initialQuizState\<lparr>step := 1\<rparr>) =
   Inr (initialQuizState\<lparr>step := 1, isCorrect := False, isAnswered := True\<rparr>)"
  using checkAnswer_multiple_choice [of "initialQuizState\<lparr>step := 1, selectedAnswer := Some ''Sba7 L5eer''\<rparr>"
      "[(draftActivity MultipleChoice ''T'' ''Q'')
        \<lparr>options := [(initialOption 0 False)\<lparr>el_text := ''Msa L5eer''\<rparr>,
                     (initialOption 0 True)\<lparr>el_text := ''Sba7 L5eer''\<rparr>,
                     (initialOption 0 False)\<lparr>el_text := ''Sba7 L5eer''\<rparr>]\<rparr>]"
      "(draftActivity MultipleChoice ''T'' ''Q'')
        \<lparr>options := [(initialOption 0 False)\<lparr>el_text := ''Msa L5eer''\<rparr>,
                     (initialOption 0 True)\<lparr>el_text := ''Sba7 L5eer''\<rparr>,
                     (initialOption 0 False)\<lparr>el_text := ''Sba7 L5eer''\<rparr>]\<rparr>" "[]"]
  by (simp add: checkAnswer_def currentContent_def draftActivity_def initialActivityData_def
      initialOption_def initialQuizState_def)

lemma blankPartsOf_indices:
  "map tokenBlank (blankPartsOf tpl) = map Some (blank_indices tpl)"
  unfolding blankPartsOf_def by (induction tpl rule: blank_indices.induct) auto

lemma upt_add_Suc: "[a ..< a + Suc m] = a # [Suc a ..< Suc a + m]"
  using upt_conv_Cons [of a "a + Suc m"] by (simp del: upt_Suc)

lemma find_unfilled_Some:
  "map tokenBlank ps = map Some [a ..< a + n] \<Longrightarrow>
   find (\<lambda>p. slotOf bs p = None) ps = Some p \<Longrightarrow>
     \<exists>k. tokenBlank p = Some k \<and> a \<le> k \<and> k < a + n \<and> bs k = None \<and>
         (\<forall>j. a \<le> j \<and> j < k \<longrightarrow> bs j \<noteq> None)"
proof (induction ps arbitrary: a n)
  case Nil
  then show ?case by simp
next
  case (Cons q qs)
  from Cons.prems(1) obtain m where n: "n = Suc m"
    by (cases n) auto
  from Cons.prems(1) n have "map tokenBlank (q # qs) = map Some (a # [Suc a ..< Suc a + m])"
    by (simp only: upt_add_Suc)
  then have q: "tokenBlank q = Some a"
    and qs: "map tokenBlank qs = map Some [Suc a ..< Suc a + m]"
    by simp_all
  show ?case
  proof (cases "bs a = None")
    case True
    with Cons.prems(2) q have "p = q" by (simp add: slotOf_def)
    with q True n show ?thesis by auto
  next
    case False
    with Cons.prems(2) q have "find (\<lambda>p. slotOf bs p = None) qs = Some p"
      by (simp add: slotOf_def)
    from Cons.IH [OF qs this] obtain k where
      k: "tokenBlank p = Some k" "Suc a \<le> k" "k < Suc a + m" "bs k = None"
         "\<forall>j. Suc a \<le> j \<and> j < k \<longrightarrow> bs j \<noteq> None" by blast
    have "\<forall>j. a \<le> j \<and> j < k \<longrightarrow> bs j \<noteq> None"
    proof (intro allI impI)
      fix j assume "a \<le> j \<and> j < k"
      then show "bs j \<noteq> None"
        using False k(5) by (cases "j = a") auto
    qed
    with k n show ?thesis by auto
  qed
qed

lemma find_unfilled_None:
  "map tokenBlank ps = map Some [a ..< a + n] \<Longrightarrow>
   find (\<lambda>p. slotOf bs p = None) ps = None \<Longrightarrow> \<forall>j. a \<le> j \<and> j < a + n \<longrightarrow> bs j \<noteq> None"
proof (induction ps arbitrary: a n)
  case Nil
  then show ?case by auto
next
  case (Cons q qs)
  from Cons.prems(1) obtain m where n: "n = Suc m"
    by (cases n) auto
  from Cons.prems(1) n have "map tokenBlank (q # qs) = map Some (a # [Suc a ..< Suc a + m])"
    by (simp only: upt_add_Suc)
  then have q: "tokenBlank q = Some a"
    and qs: "map tokenBlank qs = map Some [Suc a ..< Suc a + m]"
    by simp_all
  from Cons.prems(2) q have a: "bs a \<noteq> None" and f: "find (\<lambda>p. slotOf bs p = None) qs = None"
    by (auto simp: slotOf_def split: if_splits)
  from Cons.IH [OF qs f] have ih: "\<forall>j. Suc a \<le> j \<and> j < Suc a + m \<longrightarrow> bs j \<noteq> None" .
  show ?case
  proof (intro allI impI)
    fix j assume "a \<le> j \<and> j < a + n"
    then show "bs j \<noteq> None"
      using a ih n by (cases "j = a") auto
  qed
qed

text \<open>
  A tap on a word while the step is unanswered: the word goes to the lowest blank of
  the template that holds nothing, and every copy of it leaves the pool; when every
  blank holds a word, nothing changes.
\<close>

lemma handleWordBlockTap_lowest:
  assumes "\<not> isAnswered st"
    and bp: "blankParts = blankPartsOf (sentenceTemplate (parseFillInBlanks t))"
  shows "(\<exists>k < length blankParts.
            blanksState st k = None \<and> (\<forall>j < k. blanksState st j \<noteq> None) \<and>
            handleWordBlockTap blankParts word st =
              st\<lparr>blanksState := (blanksState st)(k \<mapsto> word),
                 availableWords := filter (\<lambda>w. w \<noteq> word) (availableWords st)\<rparr>) \<or>
         ((\<forall>j < length blankParts. blanksState st j \<noteq> None) \<and>
            handleWordBlockTap blankParts word st = st)"
proof -
  let ?tpl = "sentenceTemplate (parseFillInBlanks t)"
  have "blank_indices ?tpl = [0 ..< length (filter is_blank_part (parts_of t))]"
    by (simp add: parse_eq blank_indices_tokens_from)
  then have ix: "map tokenBlank blankParts = map Some [0 ..< 0 + length blankParts]"
    using blankPartsOf_indices [of ?tpl] bp
    by (metis add_0 length_map length_upt minus_nat.diff_0)
  show ?thesis
  proof (cases "find (\<lambda>p. slotOf (blanksState st) p = None) blankParts")
    case None
    from find_unfilled_None [OF ix None] None assms(1) show ?thesis
      by (simp add: handleWordBlockTap_def)
  next
    case (Some p)
    from find_unfilled_Some [OF ix Some] obtain k where
      k: "tokenBlank p = Some k" "k < length blankParts" "blanksState st k = None"
         "\<forall>j < k. blanksState st j \<noteq> None" by auto
    have "handleWordBlockTap blankParts word st =
        st\<lparr>blanksState := (blanksState st)(k \<mapsto> word),
           availableWords := filter (\<lambda>w. w \<noteq> word) (availableWords st)\<rparr>"
      using Some k(1) assms(1) by (simp add: handleWordBlockTap_def)
    with k show ?thesis by blast
  qed
qed

lemma handleWordBlockTap_answered: "isAnswered st \<Longrightarrow> handleWordBlockTap blankParts word st = st"
  by (simp add: handleWordBlockTap_def)

text \<open>
  The word buttons are drawn from \<^verbatim>\<open>availableWords\<close>: after a tap that filled a blank no
  button carries the word any more, so the same word cannot be tapped again before a
  blank gives it back. The copies of every other word stay in the pool.
\<close>

lemma handleWordBlockTap_pool:
  "handleWordBlockTap blankParts word st \<noteq> st \<Longrightarrow>
     word \<notin> set (availableWords (handleWordBlockTap blankParts word st)) \<and>
     (\<forall>w. w \<noteq> word \<longrightarrow>
        count_list (availableWords (handleWordBlockTap blankParts word st)) w =
        count_list (availableWords st) w)"
proof -
  have c: "\<And>w xs. w \<noteq> word \<Longrightarrow> count_list (filter (\<lambda>x. x \<noteq> word) xs) w = count_list xs w"
  proof -
    fix w :: string and xs
    assume "w \<noteq> word"
    then show "count_list (filter (\<lambda>x. x \<noteq> word) xs) w = count_list xs w"
      by (induction xs) auto
  qed
  assume "handleWordBlockTap blankParts word st \<noteq> st"
  then show ?thesis
    by (auto simp: handleWordBlockTap_def c split: if_splits option.splits)
qed

text \<open>
  Claim C9 at a pool that repeats a word: the template \<^verbatim>\<open>{nta} o {nta}\<close> needs the word
  twice and the pool offers it twice, but one tap removes both copies from the pool,
  so no copy remains available for the second blank; and a click on the filled blank
  gives back one copy only.
\<close>

theorem tap_removes_every_copy:
  "handleWordBlockTap
     (blankPartsOf (sentenceTemplate (parseFillInBlanks ''{nta} o {nta}''))) ''nta''
     (initialQuizState\<lparr>step := 1, availableWords := [''nta'', ''nty'', ''nta'']\<rparr>) =
   initialQuizState\<lparr>step := 1, availableWords := [''nty''], blanksState := [0 \<mapsto> ''nta'']\<rparr> \<and>
   correctWords (parseFillInBlanks ''{nta} o {nta}'') = [''nta'', ''nta''] \<and>
   handleBlankClick shuffle 0
     (initialQuizState\<lparr>step := 1, availableWords := [''nty''], blanksState := [0 \<mapsto> ''nta'']\<rparr>) =
   initialQuizState\<lparr>step := 1, availableWords := shuffle [''nty'', ''nta''],
     blanksState := Map.empty\<rparr>"
  by (simp add: handleWordBlockTap_def handleBlankClick_def blankPartsOf_def slotOf_def
      initialQuizState_def parseFillInBlanks_def parts_of_def trim_def is_white_space_def
      is_line_terminator_def endsWith_rbrace_def Let_def)

end
